theory Spec2Isabelle
  imports Complex_Main "HOL-Library.AList" "HOL-Library.Char_ord" "HOL-Library.List_Lexorder"
    "HOL-Library.Product_Lexorder" "HOL-Library.Option_ord"
begin

section \<open>Values and exceptions\<close>

text \<open>
  The scripts handle DICOM field values of mixed Python types. A float is a finite
  number, NaN or an infinity; no definition below computes with the finite payload.
\<close>

datatype pyfloat = Finite rat | NaN | PosInf | NegInf

text \<open>
  \<open>PNpInt\<close> and \<open>PNpFloat\<close> are numpy scalars (\<open>np.integer\<close>, \<open>np.floating\<close>);
  \<open>PNdarray xs\<close> is a numpy array, held as the list its \<open>tolist()\<close> returns.
  A dict is its list of items in insertion order; a set is its elements in iteration
  order.
\<close>

datatype pyval =
    PNone
  | PBool bool
  | PInt int
  | PFloat pyfloat
  | PStr string
  | PList "pyval list"
  | PDict "(pyval \<times> pyval) list"
  | PTuple "pyval list"
  | PSet "pyval list"
  | PNpInt int
  | PNpFloat pyfloat
  | PNdarray "pyval list"

datatype error = ValueError | KeyError | TypeError

text \<open>
  A row of a table in record form (\<open>to_dict(orient='records')\<close>) is a dict from field
  name to value. A DataFrame has its column names and its rows; a row that has no item for
  a column holds a missing value (NaN) there.
\<close>

type_synonym 'c row = "(string \<times> 'c) list"

record 'c dataframe =
  columns :: "string list"
  records :: "'c row list"

text \<open>
  A dict built item by item (a dict comprehension): an item whose key is already there
  replaces the value in place, a new key goes to the end.
\<close>

definition dict_comp :: "('k \<times> 'v) list \<Rightarrow> ('k \<times> 'v) list" where
  "dict_comp items = foldl (\<lambda>d kv. AList.update (fst kv) (snd kv) d) [] items"

text \<open>\<open>row.get(field, None)\<close>\<close>

definition get :: "pyval row \<Rightarrow> string \<Rightarrow> pyval" where
  "get r field = (case map_of r field of Some v \<Rightarrow> v | None \<Rightarrow> PNone)"

text \<open>\<open>tuple(g(v) for v in value)\<close>: the elements are computed left to right and the first exception ends the run.\<close>

fun collect :: "(error + 'a) list \<Rightarrow> error + 'a list" where
  "collect [] = Inr []"
| "collect (Inl e # rs) = Inl e"
| "collect (Inr v # rs) = (case collect rs of Inl e \<Rightarrow> Inl e | Inr vs \<Rightarrow> Inr (v # vs))"

section \<open>generate\_template.py\<close>

text \<open>
  \<open>make_hashable\<close>. The library call \<open>json.dumps(value, sort_keys=True)\<close> is the
  parameter \<open>dumps\<close>: it returns the encoded string or raises (a set inside a list, keys
  of mixed types to sort).
\<close>

fun make_hashable :: "(pyval \<Rightarrow> error + string) \<Rightarrow> pyval \<Rightarrow> error + pyval" where
  "make_hashable dumps (PList xs) =
     (case dumps (PList xs) of Inl e \<Rightarrow> Inl e | Inr s \<Rightarrow> Inr (PStr s))"
| "make_hashable dumps (PDict kvs) =
     (case dumps (PDict kvs) of Inl e \<Rightarrow> Inl e | Inr s \<Rightarrow> Inr (PStr s))"
| "make_hashable dumps (PSet xs) =
     (case collect (map (make_hashable dumps) xs) of Inl e \<Rightarrow> Inl e | Inr ys \<Rightarrow> Inr (PTuple ys))"
| "make_hashable dumps (PTuple xs) =
     (case collect (map (make_hashable dumps) xs) of Inl e \<Rightarrow> Inl e | Inr ys \<Rightarrow> Inr (PTuple ys))"
| "make_hashable dumps value = Inr value"

text \<open>
  \<open>get_constant_fields\<close>. Python's \<open>==\<close> on two normalized values is the parameter
  \<open>eq\<close>: it gives the truth value the \<open>all(...)\<close> reads, or raises (an array compared
  with an array has no truth value). \<open>all\<close> stops at the first row that differs.
\<close>

fun all_rows_match ::
  "(pyval \<Rightarrow> error + string) \<Rightarrow> (pyval \<Rightarrow> pyval \<Rightarrow> error + bool) \<Rightarrow> pyval \<Rightarrow> string \<Rightarrow> pyval row list \<Rightarrow> error + bool" where
  "all_rows_match dumps eq first_value field [] = Inr True"
| "all_rows_match dumps eq first_value field (r # rows) =
     (case make_hashable dumps (get r field) of
        Inl e \<Rightarrow> Inl e
      | Inr a \<Rightarrow>
          (case make_hashable dumps first_value of
             Inl e \<Rightarrow> Inl e
           | Inr b \<Rightarrow>
               (case eq a b of
                  Inl e \<Rightarrow> Inl e
                | Inr True \<Rightarrow> all_rows_match dumps eq first_value field rows
                | Inr False \<Rightarrow> Inr False)))"

text \<open>\<open>variable_fields.remove(field)\<close> raises ValueError when the field is not in the list.\<close>

definition list_remove :: "string \<Rightarrow> string list \<Rightarrow> error + string list" where
  "list_remove field xs = (if field \<in> set xs then Inr (remove1 field xs) else Inl ValueError)"

text \<open>The loop \<open>for field in fields\<close>, with the two results as its state (the argument \<open>fields\<close> is \<open>field_names\<close> here).\<close>

fun fields_loop ::
  "(pyval \<Rightarrow> error + string) \<Rightarrow> (pyval \<Rightarrow> pyval \<Rightarrow> error + bool) \<Rightarrow> pyval row list \<Rightarrow> pyval row \<Rightarrow> string list
    \<Rightarrow> pyval row \<times> string list \<Rightarrow> error + pyval row \<times> string list" where
  "fields_loop dumps eq rows row0 [] st = Inr st"
| "fields_loop dumps eq rows row0 (field # field_names) (constant_fields, variable_fields) =
     (let first_value = get row0 field in
      case all_rows_match dumps eq first_value field rows of
        Inl e \<Rightarrow> Inl e
      | Inr False \<Rightarrow> fields_loop dumps eq rows row0 field_names (constant_fields, variable_fields)
      | Inr True \<Rightarrow>
          (case list_remove field variable_fields of
             Inl e \<Rightarrow> Inl e
           | Inr variable_fields' \<Rightarrow>
               fields_loop dumps eq rows row0 field_names
                 (AList.update field first_value constant_fields, variable_fields')))"

definition get_constant_fields ::
  "(pyval \<Rightarrow> error + string) \<Rightarrow> (pyval \<Rightarrow> pyval \<Rightarrow> error + bool) \<Rightarrow> pyval row list \<Rightarrow> string list
    \<Rightarrow> error + pyval row \<times> string list" where
  "get_constant_fields dumps eq rows field_names =
     (case rows of
        [] \<Rightarrow> Inr ([], field_names)
      | row0 # _ \<Rightarrow>
          if field_names = [] then Inr ([], field_names)
          else fields_loop dumps eq rows row0 field_names ([], field_names))"

text \<open>
  A cell of a table of Python values; \<open>str.strip()\<close> on a column name removes the
  whitespace characters of Python at both ends (those below code point 256).
\<close>

definition cell :: "pyval row \<Rightarrow> string \<Rightarrow> pyval" where
  "cell r c = (case map_of r c of Some v \<Rightarrow> v | None \<Rightarrow> PFloat NaN)"

definition is_space :: "char \<Rightarrow> bool" where
  "is_space c = (of_char c \<in> set [9, 10, 11, 12, 13, 28, 29, 30, 31, 32, 133, 160 :: nat])"

definition strip :: "string \<Rightarrow> string" where
  "strip s = rev (dropWhile is_space (rev (dropWhile is_space s)))"

text \<open>
  \<open>df[df['ProtocolName'] == acquisition]\<close>: the comparison is made row by row (the
  parameter \<open>eq\<close>), and the rows where it holds are kept.
\<close>

definition protocol_mask ::
  "(pyval \<Rightarrow> pyval \<Rightarrow> error + bool) \<Rightarrow> pyval dataframe \<Rightarrow> pyval \<Rightarrow> error + bool list" where
  "protocol_mask eq df acquisition =
     collect (map (\<lambda>r. eq (cell r ''ProtocolName'') acquisition) (records df))"

definition select_rows :: "bool list \<Rightarrow> 'c dataframe \<Rightarrow> 'c dataframe" where
  "select_rows row_mask df = df\<lparr>records := map snd (filter fst (zip row_mask (records df)))\<rparr>"

text \<open>\<open>df[selected_fields]\<close>\<close>

definition select_columns :: "string list \<Rightarrow> pyval dataframe \<Rightarrow> pyval dataframe" where
  "select_columns selected_fields df =
     \<lparr>columns = selected_fields,
      records = map (\<lambda>r. map (\<lambda>field. (field, cell r field)) selected_fields) (records df)\<rparr>"

text \<open>\<open>df.columns = names\<close>: the columns are renamed by position.\<close>

definition set_columns :: "string list \<Rightarrow> 'c dataframe \<Rightarrow> 'c dataframe" where
  "set_columns names df =
     \<lparr>columns = names, records = map (\<lambda>r. zip names (map snd r)) (records df)\<rparr>"

text \<open>
  \<open>df_selected[col] = df_selected[col].apply(make_hashable)\<close>, for one column and for
  each column in turn. \<open>Series.apply\<close> maps the function over the cells and then infers
  the type of the column it returns (a column of integers and None comes back as floats
  and NaN): that inference, a function from the mapped column to the column stored, is the
  parameter \<open>infer\<close>.
\<close>

definition apply_make_hashable ::
  "(pyval \<Rightarrow> error + string) \<Rightarrow> (pyval list \<Rightarrow> pyval list) \<Rightarrow> string \<Rightarrow> pyval row list
    \<Rightarrow> error + pyval row list" where
  "apply_make_hashable dumps infer col rows =
     (case collect (map (\<lambda>r. make_hashable dumps (cell r col)) rows) of
        Inl e \<Rightarrow> Inl e
      | Inr mapped \<Rightarrow> Inr (map (\<lambda>rv. AList.update col (snd rv) (fst rv)) (zip rows (infer mapped))))"

fun columns_loop ::
  "(pyval \<Rightarrow> error + string) \<Rightarrow> (pyval list \<Rightarrow> pyval list) \<Rightarrow> string list \<Rightarrow> pyval row list
    \<Rightarrow> error + pyval row list" where
  "columns_loop dumps infer [] rows = Inr rows"
| "columns_loop dumps infer (col # cols) rows =
     (case apply_make_hashable dumps infer col rows of
        Inl e \<Rightarrow> Inl e
      | Inr rows' \<Rightarrow> columns_loop dumps infer cols rows')"

text \<open>\<open>to_dict(orient='records')\<close>\<close>

definition to_dict_records :: "'c dataframe \<Rightarrow> 'c row list" where
  "to_dict_records df = map dict_comp (records df)"

text \<open>
  \<open>fetch_unique_rows\<close>. The pandas calls \<open>drop_duplicates(subset=..., inplace=True)\<close> and
  \<open>sort_values(by=..., ascending=True, inplace=True)\<close> are parameters: each returns the
  new table or raises (KeyError for a name that is no column, TypeError for cells that
  cannot be hashed or ordered). When two of the selected names are the same once stripped,
  the table has two columns of one name, \<open>df_selected[col]\<close> is a table and not a column,
  and \<open>apply\<close> no longer maps \<open>make_hashable\<close> over cells: what the function does from
  there on is the parameter \<open>repeated\<close>.
\<close>

definition fetch_unique_rows ::
  "(pyval \<Rightarrow> error + string) \<Rightarrow> (pyval \<Rightarrow> pyval \<Rightarrow> error + bool)
    \<Rightarrow> (pyval list \<Rightarrow> pyval list)
    \<Rightarrow> (string list \<Rightarrow> pyval dataframe \<Rightarrow> error + pyval dataframe)
    \<Rightarrow> (string list \<Rightarrow> pyval dataframe \<Rightarrow> error + pyval dataframe)
    \<Rightarrow> (pyval dataframe \<Rightarrow> error + pyval row list)
    \<Rightarrow> pyval dataframe \<Rightarrow> pyval \<Rightarrow> string list \<Rightarrow> error + pyval row list" where
  "fetch_unique_rows dumps eq infer drop_duplicates sort_values repeated df acquisition selected_fields =
     (if selected_fields = [] then Inr []
      else if list_ex (\<lambda>field. field \<notin> set (columns df)) selected_fields then Inl ValueError
      else if ''ProtocolName'' \<notin> set (columns df) then Inl KeyError
      else
        case protocol_mask eq df acquisition of
          Inl e \<Rightarrow> Inl e
        | Inr row_mask \<Rightarrow>
            (let df_selected = select_columns selected_fields (select_rows row_mask df);
                 df_selected = set_columns (map strip (columns df_selected)) df_selected
             in if \<not> distinct (columns df_selected) then repeated df_selected
                else
                  case columns_loop dumps infer (columns df_selected) (records df_selected) of
                    Inl e \<Rightarrow> Inl e
                  | Inr rows \<Rightarrow>
                      (case drop_duplicates selected_fields (df_selected\<lparr>records := rows\<rparr>) of
                         Inl e \<Rightarrow> Inl e
                       | Inr df_selected \<Rightarrow>
                           if list_ex (\<lambda>field. field \<in> set (columns df_selected)) selected_fields
                           then (case sort_values selected_fields df_selected of
                                   Inl e \<Rightarrow> Inl e
                                 | Inr df_selected \<Rightarrow> Inr (to_dict_records df_selected))
                           else Inr (to_dict_records df_selected))))"

section \<open>process\_example\_dicoms.py\<close>

text \<open>
  \<open>pd.isna\<close> on a scalar, \<open>np.isnan\<close>, \<open>np.isinf\<close>, the \<open>isinstance\<close> tests and
  \<open>obj.item()\<close>, on the values of the model. \<open>pd.isna\<close> is False on a tuple and on a set.
\<close>

fun pd_isna :: "pyval \<Rightarrow> bool" where
  "pd_isna PNone = True"
| "pd_isna (PFloat f) = (f = NaN)"
| "pd_isna (PNpFloat f) = (f = NaN)"
| "pd_isna obj = False"

fun np_isnan :: "pyval \<Rightarrow> bool" where
  "np_isnan (PFloat f) = (f = NaN)"
| "np_isnan (PNpFloat f) = (f = NaN)"
| "np_isnan obj = False"

fun np_isinf :: "pyval \<Rightarrow> bool" where
  "np_isinf (PFloat f) = (f = PosInf \<or> f = NegInf)"
| "np_isinf (PNpFloat f) = (f = PosInf \<or> f = NegInf)"
| "np_isinf obj = False"

fun is_np_number :: "pyval \<Rightarrow> bool" where
  "is_np_number (PNpInt i) = True"
| "is_np_number (PNpFloat f) = True"
| "is_np_number obj = False"

fun is_float :: "pyval \<Rightarrow> bool" where
  "is_float (PFloat f) = True"
| "is_float (PNpFloat f) = True"
| "is_float obj = False"

fun item :: "pyval \<Rightarrow> pyval" where
  "item (PNpInt i) = PInt i"
| "item (PNpFloat f) = PFloat f"
| "item obj = obj"

text \<open>\<open>clean_for_json\<close>\<close>

fun clean_for_json :: "pyval \<Rightarrow> pyval" where
  "clean_for_json (PDict kvs) = PDict (map (\<lambda>kv. (fst kv, clean_for_json (snd kv))) kvs)"
| "clean_for_json (PList xs) = PList (map clean_for_json xs)"
| "clean_for_json (PNdarray xs) = PList xs"
| "clean_for_json obj =
     (if pd_isna obj \<or> obj = PNone then PNone
      else if is_np_number obj then
        (if np_isnan obj \<or> np_isinf obj then PNone else item obj)
      else if is_float obj then
        (if np_isnan obj \<or> np_isinf obj then PNone else obj)
      else obj)"

section \<open>mapping\_output.py\<close>

text \<open>
  The input session is a table whose cells are of a type that pandas can sort; a missing
  value (NaN) is a row without an item for the column, so \<open>map_of r field\<close> is the cell.

  \<open>GroupBy.ngroup()\<close> numbers the groups from 0 in the order in which iterating over
  the groupby object yields them, not in the order in which they are first seen;
  \<open>groupby\<close> sorts the group keys (\<open>sort=True\<close> is its default), column by column, and
  with \<open>dropna=False\<close> a missing value is a key of its own, after all others.
\<close>

definition na_last :: "'c option \<Rightarrow> bool \<times> 'c option" where
  "na_last c = (c = None, c)"

fun index_of :: "'a \<Rightarrow> 'a list \<Rightarrow> nat" where
  "index_of x [] = 0"
| "index_of x (y # ys) = (if x = y then 0 else Suc (index_of x ys))"

definition ngroup :: "('c::linorder) option list list \<Rightarrow> nat list" where
  "ngroup keys =
     (let groups = sort_key (map na_last) (remdups keys) in map (\<lambda>k. index_of k groups) keys)"

text \<open>\<open>str(n)\<close> for a natural number, as the f-string \<open>f"Series {x}"\<close> prints it.\<close>

definition digit :: "nat \<Rightarrow> char" where
  "digit d = char_of (48 + d)"

fun str_nat :: "nat \<Rightarrow> string" where
  "str_nat n = (if n < 10 then [digit n] else str_nat (n div 10) @ [digit (n mod 10)])"

text \<open>
  The statement \<open>in_session["Series"] = in_session.groupby(acquisition_fields).apply(lambda
  group: group.groupby(reference_fields, dropna=False).ngroup().add(1)).reset_index(level=0,
  drop=True).apply(lambda x: f"Series {x}")\<close> with \<open>acquisition_fields = ["ProtocolName"]\<close>.
  The outer \<open>groupby\<close> leaves out the rows whose ProtocolName is missing; each group gives
  the ordinals of its rows under their row index. With two groups or more the pieces have
  different indexes and \<open>apply\<close> concatenates them; the labels are printed and the
  assignment aligns them with the rows by index, a row without an ordinal getting a
  missing label (None). With fewer than two groups \<open>apply\<close> does not concatenate (a
  single piece is laid out as the one row of a table, and the f-string then prints a whole
  column of it): what the statement assigns then is the parameter \<open>stacked\<close>. An unknown
  column name makes \<open>groupby\<close> raise KeyError, an empty list of keys ValueError.
\<close>

definition group_series ::
  "string list \<Rightarrow> (nat \<times> ('c::linorder) row) list \<Rightarrow> 'c \<Rightarrow> (nat \<times> nat) list" where
  "group_series reference_fields indexed g =
     (let group = filter (\<lambda>ir. map_of (snd ir) ''ProtocolName'' = Some g) indexed
      in zip (map fst group)
             (map (\<lambda>n. n + 1) (ngroup (map (\<lambda>ir. map (map_of (snd ir)) reference_fields) group))))"

definition series_column ::
  "(string list \<Rightarrow> ('c::linorder) dataframe \<Rightarrow> error + string option list)
    \<Rightarrow> string list \<Rightarrow> 'c dataframe \<Rightarrow> error + string option list" where
  "series_column stacked reference_fields in_session =
     (let rows = records in_session;
          indexed = zip [0..<length rows] rows;
          acquisitions = sort (remdups (List.map_filter (\<lambda>r. map_of r ''ProtocolName'') rows))
      in if ''ProtocolName'' \<notin> set (columns in_session) then Inl KeyError
         else if acquisitions \<noteq> [] \<and> list_ex (\<lambda>field. field \<notin> set (columns in_session)) reference_fields
         then Inl KeyError
         else if acquisitions \<noteq> [] \<and> reference_fields = [] then Inl ValueError
         else if length acquisitions < 2 then stacked reference_fields in_session
         else
           (let series = concat (map (group_series reference_fields indexed) acquisitions);
                labels = map (\<lambda>ix. (fst ix, ''Series '' @ str_nat (snd ix))) series
            in Inr (map (\<lambda>i. map_of labels i) [0..<length rows])))"

text \<open>
  The serialized session map of the JSON-reference mode: each key and value, a pair
  (acquisition, series label), is printed as \<open>f"{key[0]}::{key[1]}"\<close>.
\<close>

definition session_map_serializable ::
  "((string \<times> string) \<times> (string \<times> string)) list \<Rightarrow> (string \<times> string) list" where
  "session_map_serializable session_map =
     dict_comp (map (\<lambda>kv. (fst (fst kv) @ ''::'' @ snd (fst kv), fst (snd kv) @ ''::'' @ snd (snd kv)))
                    session_map)"

text \<open>
  The module-reference mode. \<open>Series.unique()\<close> keeps the first occurrence of each value,
  in order of appearance. The script raises ValueError when the session failed to load
  (None) or has no rows; \<open>in_session['Acquisition']\<close> raises KeyError without that column.
\<close>

fun unique :: "'a list \<Rightarrow> 'a list" where
  "unique [] = []"
| "unique (x # xs) = x # unique (filter (\<lambda>y. y \<noteq> x) xs)"

record 'c mapping_result =
  reference_acquisitions :: "(string \<times> pyval row) list"
  input_acquisitions :: "'c option list"
  session_map :: "('c option \<times> string) list"


section \<open>compliance\_output.py\<close>

text \<open>
  \<open>k.split("::")\<close>: the string is cut at each occurrence of the separator, found from
  the left, occurrences not overlapping.
\<close>

fun split_sep :: "string \<Rightarrow> string list" where
  "split_sep [] = [[]]"
| "split_sep [c] = [[c]]"
| "split_sep (c # d # s) =
     (if c = CHR '':'' \<and> d = CHR '':'' then [] # split_sep s
      else (case split_sep (d # s) of
              [] \<Rightarrow> [[c]]
            | p # ps \<Rightarrow> (c # p) # ps))"

text \<open>
  The \<open>series_map\<close> of the JSON-reference mode, from the items of the decoded mapping;
  a tuple of strings is the list of its parts.
\<close>

definition series_map :: "(string \<times> string) list \<Rightarrow> (string list \<times> string list) list" where
  "series_map finalized_mapping =
     dict_comp (map (\<lambda>kv. (split_sep (fst kv), split_sep (snd kv))) finalized_mapping)"

section \<open>The claims' own notions\<close>

text \<open>
  "The normalized value of \<open>x\<close> equals the normalized value of \<open>y\<close>": both
  normalizations return and \<open>==\<close> on the results is true.
\<close>

definition normalized_equal ::
  "(pyval \<Rightarrow> error + string) \<Rightarrow> (pyval \<Rightarrow> pyval \<Rightarrow> error + bool) \<Rightarrow> pyval \<Rightarrow> pyval \<Rightarrow> bool" where
  "normalized_equal dumps eq x y =
     (case make_hashable dumps x of
        Inl e \<Rightarrow> False
      | Inr a \<Rightarrow> (case make_hashable dumps y of Inl e \<Rightarrow> False | Inr b \<Rightarrow> eq a b = Inr True))"






section \<open>Instances for the examples\<close>

text \<open>
  The examples need one encoder and one equality to run with. \<open>example_dumps\<close> is
  \<open>json.dumps\<close> on None, booleans, integers and lists of these; every other value is outside
  the examples and is rejected here. \<open>structural_eq\<close> is \<open>==\<close> on integers and on strings.
\<close>

definition str_int :: "int \<Rightarrow> string" where
  "str_int i = (if i < 0 then ''-'' @ str_nat (nat (- i)) else str_nat (nat i))"

fun join :: "string \<Rightarrow> string list \<Rightarrow> string" where
  "join sep [] = []"
| "join sep [s] = s"
| "join sep (s # t # ss) = s @ sep @ join sep (t # ss)"

fun example_dumps :: "pyval \<Rightarrow> error + string" where
  "example_dumps PNone = Inr ''null''"
| "example_dumps (PBool b) = Inr (if b then ''true'' else ''false'')"
| "example_dumps (PInt i) = Inr (str_int i)"
| "example_dumps (PList xs) =
     (case collect (map example_dumps xs) of
        Inl e \<Rightarrow> Inl e
      | Inr ss \<Rightarrow> Inr (''['' @ join '', '' ss @ '']''))"
| "example_dumps v = Inl TypeError"

definition structural_eq :: "pyval \<Rightarrow> pyval \<Rightarrow> error + bool" where
  "structural_eq a b = Inr (a = b)"

text \<open>
  Cells of the input session in the examples: integers and strings, integers first (the
  order in which pandas sorts group keys of both kinds).
\<close>

datatype scalar = SInt int | SStr string

instantiation scalar :: linorder
begin

fun less_eq_scalar :: "scalar \<Rightarrow> scalar \<Rightarrow> bool" where
  "less_eq_scalar (SInt a) (SInt b) = (a \<le> b)"
| "less_eq_scalar (SInt a) (SStr b) = True"
| "less_eq_scalar (SStr a) (SInt b) = False"
| "less_eq_scalar (SStr a) (SStr b) = (a \<le> b)"

definition less_scalar :: "scalar \<Rightarrow> scalar \<Rightarrow> bool" where
  "less_scalar x y = (x \<le> y \<and> \<not> y \<le> x)"

instance
proof
  fix x y z :: scalar
  show "(x < y) = (x \<le> y \<and> \<not> y \<le> x)" by (simp add: less_scalar_def)
  show "x \<le> x" by (cases x) auto
  show "x \<le> y \<Longrightarrow> y \<le> z \<Longrightarrow> x \<le> z" by (cases x; cases y; cases z) auto
  show "x \<le> y \<Longrightarrow> y \<le> x \<Longrightarrow> x = y" by (cases x; cases y) auto
  show "x \<le> y \<or> y \<le> x" by (cases x; cases y) auto
qed

end

text \<open>
  \<open>drop_duplicates\<close> and \<open>sort_values\<close> for tables of numbers and strings: the first
  row of each combination of the named columns is kept; the rows are sorted by the cells of the
  named columns, stably, numbers before strings and anything else (a missing value) last.
  Both raise KeyError for a name that is no column.
\<close>

fun first_by :: "('a \<Rightarrow> 'k) \<Rightarrow> 'a list \<Rightarrow> 'a list" where
  "first_by key [] = []"
| "first_by key (x # xs) = x # first_by key (filter (\<lambda>y. key y \<noteq> key x) xs)"

definition example_drop_duplicates :: "string list \<Rightarrow> pyval dataframe \<Rightarrow> error + pyval dataframe" where
  "example_drop_duplicates names df =
     (if list_ex (\<lambda>field. field \<notin> set (columns df)) names then Inl KeyError
      else Inr (df\<lparr>records := first_by (\<lambda>r. map (cell r) names) (records df)\<rparr>))"

fun cell_rank :: "pyval \<Rightarrow> nat \<times> rat \<times> string" where
  "cell_rank (PInt i) = (0, of_int i, [])"
| "cell_rank (PFloat (Finite q)) = (0, q, [])"
| "cell_rank (PStr s) = (1, 0, s)"
| "cell_rank v = (2, 0, [])"

definition example_sort_values :: "string list \<Rightarrow> pyval dataframe \<Rightarrow> error + pyval dataframe" where
  "example_sort_values names df =
     (if list_ex (\<lambda>field. field \<notin> set (columns df)) names then Inl KeyError
      else Inr (df\<lparr>records := sort_key (\<lambda>r. map (\<lambda>field. cell_rank (cell r field)) names) (records df)\<rparr>))"

text \<open>
  The inference of \<open>Series.apply\<close> on the columns of the examples: a column of integers,
  floats and None that holds a number and also a float or a None is stored as floats, None
  as NaN; every other column is stored as it is. A table with repeated column names does
  not occur in the examples.
\<close>

fun is_number :: "pyval \<Rightarrow> bool" where
  "is_number (PInt i) = True"
| "is_number (PFloat f) = True"
| "is_number v = False"

fun to_float :: "pyval \<Rightarrow> pyval" where
  "to_float (PInt i) = PFloat (Finite (of_int i))"
| "to_float PNone = PFloat NaN"
| "to_float v = v"

definition example_infer :: "pyval list \<Rightarrow> pyval list" where
  "example_infer mapped =
     (if list_all (\<lambda>v. is_number v \<or> v = PNone) mapped \<and> list_ex is_number mapped
         \<and> list_ex (\<lambda>v. is_float v \<or> v = PNone) mapped
      then map to_float mapped else mapped)"

definition example_repeated :: "pyval dataframe \<Rightarrow> error + pyval row list" where
  "example_repeated df_selected = Inl TypeError"

text \<open>
  A table of four images, two of them with the same echo time, and a table of three images
  one of which has no echo time.
\<close>

definition example_df :: "pyval dataframe" where
  "example_df =
     \<lparr>columns = [''ProtocolName'', ''EchoTime'', ''ImageType''],
      records =
        [[(''ProtocolName'', PStr ''T1''), (''EchoTime'', PInt 7), (''ImageType'', PList [PInt 1, PInt 2])],
         [(''ProtocolName'', PStr ''T1''), (''EchoTime'', PInt 5), (''ImageType'', PList [PInt 1, PInt 2])],
         [(''ProtocolName'', PStr ''T1''), (''EchoTime'', PInt 7), (''ImageType'', PList [PInt 1, PInt 2])],
         [(''ProtocolName'', PStr ''T2''), (''EchoTime'', PInt 3), (''ImageType'', PList [PInt 1])]]\<rparr>"


text \<open>
  Two input sessions of two acquisitions each, the first acquisition with echo times
  1, 2, 1 in row order in the one and 2, 1, 2 in the other; and a value for the parameter
  of \<open>series_column\<close>, which plays no part with two acquisitions.
\<close>

definition example_session_121 :: "scalar dataframe" where
  "example_session_121 =
     \<lparr>columns = [''ProtocolName'', ''Acquisition'', ''EchoTime''],
      records =
        [[(''ProtocolName'', SStr ''T1''), (''Acquisition'', SStr ''acq-T1''), (''EchoTime'', SInt 1)],
         [(''ProtocolName'', SStr ''T1''), (''Acquisition'', SStr ''acq-T1''), (''EchoTime'', SInt 2)],
         [(''ProtocolName'', SStr ''T1''), (''Acquisition'', SStr ''acq-T1''), (''EchoTime'', SInt 1)],
         [(''ProtocolName'', SStr ''T2''), (''Acquisition'', SStr ''acq-T2''), (''EchoTime'', SInt 9)]]\<rparr>"

definition example_session :: "scalar dataframe" where
  "example_session =
     \<lparr>columns = [''ProtocolName'', ''Acquisition'', ''EchoTime''],
      records =
        [[(''ProtocolName'', SStr ''T1''), (''Acquisition'', SStr ''acq-T1''), (''EchoTime'', SInt 2)],
         [(''ProtocolName'', SStr ''T1''), (''Acquisition'', SStr ''acq-T1''), (''EchoTime'', SInt 1)],
         [(''ProtocolName'', SStr ''T1''), (''Acquisition'', SStr ''acq-T1''), (''EchoTime'', SInt 2)],
         [(''ProtocolName'', SStr ''T2''), (''Acquisition'', SStr ''acq-T2''), (''EchoTime'', SInt 9)]]\<rparr>"

definition example_stacked :: "string list \<Rightarrow> scalar dataframe \<Rightarrow> error + string option list" where
  "example_stacked reference_fields in_session = Inr (map (\<lambda>r. None) (records in_session))"

section \<open>Notions of the amended claims\<close>

text \<open>A missing numeric sentinel: None, NaN or an infinity, as a Python float or a numpy float.\<close>

fun missing_numeric :: "pyval \<Rightarrow> bool" where
  "missing_numeric PNone = True"
| "missing_numeric (PFloat f) = (f = NaN \<or> f = PosInf \<or> f = NegInf)"
| "missing_numeric (PNpFloat f) = (f = NaN \<or> f = PosInf \<or> f = NegInf)"
| "missing_numeric v = False"

text \<open>
  A string contains the separator; a two-part key can be cut back at the separator when
  its first part neither contains the separator nor ends in a colon and its second part
  does not contain the separator.
\<close>

fun contains_sep :: "string \<Rightarrow> bool" where
  "contains_sep (c # d # s) = ((c = CHR '':'' \<and> d = CHR '':'') \<or> contains_sep (d # s))"
| "contains_sep s = False"

definition separable :: "string \<times> string \<Rightarrow> bool" where
  "separable key =
     (\<not> contains_sep (fst key) \<and> (fst key = [] \<or> last (fst key) \<noteq> CHR '':'')
      \<and> \<not> contains_sep (snd key))"

text \<open>A pair (acquisition, series label) as the tuple that \<open>tuple(k.split("::"))\<close> should give back.\<close>

definition key_tuple :: "string \<times> string \<Rightarrow> string list" where
  "key_tuple key = [fst key, snd key]"

text \<open>
  The combination of reference-field values of a row, the rows of an acquisition, and
  "the combination \<open>k\<close> comes before \<open>k'\<close> when the combinations are sorted" (column by
  column, a missing value after every other value).
\<close>

definition combination :: "string list \<Rightarrow> 'c row \<Rightarrow> 'c option list" where
  "combination reference_fields r = map (map_of r) reference_fields"

definition acquisition_rows :: "'c dataframe \<Rightarrow> 'c \<Rightarrow> 'c row list" where
  "acquisition_rows in_session g =
     filter (\<lambda>r. map_of r ''ProtocolName'' = Some g) (records in_session)"

definition sorts_before :: "('c::linorder) option list \<Rightarrow> 'c option list \<Rightarrow> bool" where
  "sorts_before k k' = (map na_last k < map na_last k')"

text \<open>
  The series labels as the specification words them: within an acquisition, the ordinal of
  a combination is its place, from 1, in the order in which the combinations first appear
  in the rows.
\<close>

definition first_appearance_series :: "string list \<Rightarrow> 'c dataframe \<Rightarrow> string option list" where
  "first_appearance_series reference_fields in_session =
     map (\<lambda>r. case map_of r ''ProtocolName'' of
                 None \<Rightarrow> None
               | Some g \<Rightarrow>
                   Some (''Series '' @
                         str_nat (Suc (index_of (combination reference_fields r)
                                         (unique (map (combination reference_fields)
                                                      (acquisition_rows in_session g)))))))
         (records in_session)"



section \<open>The normalizer and the constant/variable analyzer\<close>

lemma collect_map_Inr: "collect (map Inr vs) = Inr vs"
  by (induction vs) auto

lemma collect_InrD: "collect rs = Inr vs \<Longrightarrow> rs = map Inr vs"
  by (induction rs arbitrary: vs rule: collect.induct) (auto split: sum.splits)

lemma collect_fixed:
  assumes "collect (map f xs) = Inr ys"
      and "\<And>x w. x \<in> set xs \<Longrightarrow> f x = Inr w \<Longrightarrow> f w = Inr w"
  shows "collect (map f ys) = Inr ys"
proof -
  from assms(1) have eq: "map f xs = map Inr ys"
    by (rule collect_InrD)
  have "f y = Inr y" if "y \<in> set ys" for y
  proof -
    from that obtain i where i: "i < length ys" "y = ys ! i"
      by (auto simp: in_set_conv_nth)
    from eq have len: "length xs = length ys"
      by (metis length_map)
    from eq i len have "f (xs ! i) = Inr y"
      by (metis nth_map)
    moreover have "xs ! i \<in> set xs"
      using i len by simp
    ultimately show ?thesis by (rule assms(2)[rotated])
  qed
  then have "map f ys = map Inr ys"
    by (simp cong: map_cong)
  then show ?thesis by (simp only: collect_map_Inr)
qed

lemma all_rows_match_True:
  "all_rows_match dumps eq fv field rows = Inr True \<longleftrightarrow>
     (\<forall>r\<in>set rows. normalized_equal dumps eq (get r field) fv)"
  by (induction rows) (auto simp: normalized_equal_def split: sum.splits bool.splits)

lemma fields_loop_result:
  assumes "fields_loop dumps eq rows row0 fs (cf, A @ fs) = Inr (cf', vf')"
      and "\<forall>a\<in>set A. all_rows_match dumps eq (get row0 a) a rows \<noteq> Inr True"
  shows "vf' = A @ filter (\<lambda>f. all_rows_match dumps eq (get row0 f) f rows \<noteq> Inr True) fs
       \<and> map_of cf' = (\<lambda>f. if f \<in> set fs \<and> all_rows_match dumps eq (get row0 f) f rows = Inr True
                            then Some (get row0 f) else map_of cf f)"
  using assms
proof (induction fs arbitrary: cf A)
  case Nil
  then show ?case by auto
next
  case (Cons f fs)
  show ?case
  proof (cases "all_rows_match dumps eq (get row0 f) f rows")
    case (Inl e)
    with Cons.prems show ?thesis by simp
  next
    case (Inr b)
    show ?thesis
    proof (cases b)
      case True
      with Inr Cons.prems(2) have fA: "f \<notin> set A" by auto
      then have rm: "remove1 f (A @ f # fs) = A @ fs"
        by (simp add: remove1_append)
      from Cons.prems(1) Inr True rm
      have run: "fields_loop dumps eq rows row0 fs (AList.update f (get row0 f) cf, A @ fs) = Inr (cf', vf')"
        by (simp add: list_remove_def)
      from Cons.IH[OF run Cons.prems(2)] Inr True show ?thesis
        by (auto simp: update_conv' fun_eq_iff)
    next
      case False
      with Cons.prems(1) Inr
      have run: "fields_loop dumps eq rows row0 fs (cf, (A @ [f]) @ fs) = Inr (cf', vf')"
        by simp
      have "\<forall>a\<in>set (A @ [f]). all_rows_match dumps eq (get row0 a) a rows \<noteq> Inr True"
        using Cons.prems(2) Inr False by auto
      from Cons.IH[OF run this] Inr False show ?thesis
        by (auto simp: fun_eq_iff)
    qed
  qed
qed


lemma get_constant_fields_result:
  assumes "get_constant_fields dumps eq (row0 # rest) field_names = Inr (constant_fields, variable_fields)"
  shows "variable_fields =
           filter (\<lambda>f. all_rows_match dumps eq (get row0 f) f (row0 # rest) \<noteq> Inr True) field_names"
    and "map_of constant_fields =
           (\<lambda>f. if f \<in> set field_names \<and> all_rows_match dumps eq (get row0 f) f (row0 # rest) = Inr True
                then Some (get row0 f) else None)"
proof -
  have both: "variable_fields =
           filter (\<lambda>f. all_rows_match dumps eq (get row0 f) f (row0 # rest) \<noteq> Inr True) field_names
        \<and> map_of constant_fields =
           (\<lambda>f. if f \<in> set field_names \<and> all_rows_match dumps eq (get row0 f) f (row0 # rest) = Inr True
                then Some (get row0 f) else None)"
  proof (cases "field_names = []")
    case True
    with assms show ?thesis by (auto simp: get_constant_fields_def)
  next
    case False
    with assms have "fields_loop dumps eq (row0 # rest) row0 field_names ([], [] @ field_names)
                       = Inr (constant_fields, variable_fields)"
      by (simp add: get_constant_fields_def)
    from fields_loop_result[OF this] show ?thesis
      by (simp del: all_rows_match.simps cong: if_cong)
  qed
  from both show "variable_fields =
           filter (\<lambda>f. all_rows_match dumps eq (get row0 f) f (row0 # rest) \<noteq> Inr True) field_names"
    by blast
  from both show "map_of constant_fields =
           (\<lambda>f. if f \<in> set field_names \<and> all_rows_match dumps eq (get row0 f) f (row0 # rest) = Inr True
                then Some (get row0 f) else None)"
    by blast
qed

lemma keys_constant_fields:
  assumes "get_constant_fields dumps eq (row0 # rest) field_names = Inr (constant_fields, variable_fields)"
  shows "fst ` set constant_fields =
           {f \<in> set field_names. all_rows_match dumps eq (get row0 f) f (row0 # rest) = Inr True}"
proof -
  have "fst ` set constant_fields = dom (map_of constant_fields)"
    by (simp add: dom_map_of_conv_image_fst)
  also have "\<dots> = {f \<in> set field_names. all_rows_match dumps eq (get row0 f) f (row0 # rest) = Inr True}"
    unfolding get_constant_fields_result(2)[OF assms] by (auto simp: dom_def)
  finally show ?thesis .
qed

text \<open>
  The analyzer returns a result whenever every normalization and every comparison it makes
  returns one.
\<close>

lemma all_rows_match_returns:
  assumes "\<forall>r\<in>set rows. \<exists>a. make_hashable dumps (get r field) = Inr a"
      and "\<exists>b. make_hashable dumps first_value = Inr b"
      and "\<forall>a b. \<exists>t. eq a b = Inr t"
  shows "\<exists>t. all_rows_match dumps eq first_value field rows = Inr t"
  using assms(1)
proof (induction rows)
  case Nil
  then show ?case by auto
next
  case (Cons r rows)
  from Cons.prems obtain a where a: "make_hashable dumps (get r field) = Inr a" by auto
  from assms(2) obtain b where b: "make_hashable dumps first_value = Inr b" by auto
  from assms(3) obtain t where t: "eq a b = Inr t" by blast
  from Cons.IH Cons.prems obtain t' where "all_rows_match dumps eq first_value field rows = Inr t'"
    by auto
  with a b t show ?case by (cases t) auto
qed

lemma fields_loop_returns:
  assumes "\<forall>f\<in>set fs. \<exists>t. all_rows_match dumps eq (get row0 f) f rows = Inr t"
      and "\<forall>a\<in>set A. all_rows_match dumps eq (get row0 a) a rows \<noteq> Inr True"
  shows "\<exists>res. fields_loop dumps eq rows row0 fs (cf, A @ fs) = Inr res"
  using assms
proof (induction fs arbitrary: cf A)
  case Nil
  then show ?case by simp
next
  case (Cons f fs)
  from Cons.prems(1) obtain t where t: "all_rows_match dumps eq (get row0 f) f rows = Inr t"
    by auto
  show ?case
  proof (cases t)
    case True
    with t Cons.prems(2) have "f \<notin> set A" by auto
    then have "remove1 f (A @ f # fs) = A @ fs"
      by (simp add: remove1_append)
    moreover from Cons.IH[of A "AList.update f (get row0 f) cf"] Cons.prems
    obtain res where "fields_loop dumps eq rows row0 fs (AList.update f (get row0 f) cf, A @ fs) = Inr res"
      by auto
    ultimately show ?thesis using t True by (simp add: list_remove_def)
  next
    case False
    with t Cons.prems(2) have "\<forall>a\<in>set (A @ [f]). all_rows_match dumps eq (get row0 a) a rows \<noteq> Inr True"
      by auto
    with Cons.IH[of "A @ [f]" cf] Cons.prems(1)
    obtain res where "fields_loop dumps eq rows row0 fs (cf, (A @ [f]) @ fs) = Inr res"
      by auto
    with t False show ?thesis by simp
  qed
qed

lemma get_constant_fields_returns:
  assumes "\<forall>r\<in>set rows. \<forall>f\<in>set field_names. \<exists>a. make_hashable dumps (get r f) = Inr a"
      and "\<forall>a b. \<exists>t. eq a b = Inr t"
  shows "\<exists>res. get_constant_fields dumps eq rows field_names = Inr res"
proof (cases rows)
  case Nil
  then show ?thesis by (simp add: get_constant_fields_def)
next
  case (Cons row0 rest)
  have "\<forall>f\<in>set field_names. \<exists>t. all_rows_match dumps eq (get row0 f) f rows = Inr t"
  proof
    fix f assume f: "f \<in> set field_names"
    show "\<exists>t. all_rows_match dumps eq (get row0 f) f rows = Inr t"
    proof (rule all_rows_match_returns)
      show "\<forall>r\<in>set rows. \<exists>a. make_hashable dumps (get r f) = Inr a"
        using assms(1) f by blast
      show "\<exists>b. make_hashable dumps (get row0 f) = Inr b"
        using assms(1) f Cons by auto
      show "\<forall>a b. \<exists>t. eq a b = Inr t" by (rule assms(2))
    qed
  qed
  from fields_loop_returns[OF this, of "[]" "[]"] Cons show ?thesis
    by (auto simp: get_constant_fields_def)
qed

text \<open>
  C4. For a non-empty row group \<open>row0 # rest\<close> and a field of a (hence non-empty) field
  list, when \<open>get_constant_fields\<close> returns: the field is a key of the constant map
  exactly when the normalized value of every row equals the normalized value of the first
  row; the constant map then holds the first row's raw value \<open>get row0 field\<close>; and a
  field that is not constant is in the variable list.
\<close>

theorem get_constant_fields_classifies:
  assumes "get_constant_fields dumps eq (row0 # rest) field_names = Inr (constant_fields, variable_fields)"
      and "field \<in> set field_names"
  shows "(field \<in> fst ` set constant_fields \<longleftrightarrow>
            (\<forall>r\<in>set (row0 # rest). normalized_equal dumps eq (get r field) (get row0 field)))
       \<and> (field \<in> fst ` set constant_fields \<longrightarrow> map_of constant_fields field = Some (get row0 field))
       \<and> (field \<notin> fst ` set constant_fields \<longrightarrow> field \<in> set variable_fields)"
proof -
  let ?const = "\<lambda>f. all_rows_match dumps eq (get row0 f) f (row0 # rest) = Inr True"
  have keys: "fst ` set constant_fields = {f \<in> set field_names. ?const f}"
    by (rule keys_constant_fields[OF assms(1)])
  have "field \<in> fst ` set constant_fields \<longleftrightarrow> ?const field"
    using keys assms(2) by simp
  then have one: "field \<in> fst ` set constant_fields \<longleftrightarrow>
            (\<forall>r\<in>set (row0 # rest). normalized_equal dumps eq (get r field) (get row0 field))"
    by (simp only: all_rows_match_True)
  have two: "map_of constant_fields field = Some (get row0 field)" if "field \<in> fst ` set constant_fields"
    using that keys by (simp add: get_constant_fields_result(2)[OF assms(1)])
  have three: "field \<in> set variable_fields" if "field \<notin> fst ` set constant_fields"
    using that keys assms(2) by (simp add: get_constant_fields_result(1)[OF assms(1)])
  from one two three show ?thesis by blast
qed

theorem get_constant_fields_classifies_witness:
  "get_constant_fields example_dumps structural_eq
      ([(''EchoTime'', PInt 5), (''ImageType'', PList [PInt 1, PInt 2])]
       # [[(''EchoTime'', PInt 7), (''ImageType'', PList [PInt 1, PInt 2])]])
      [''EchoTime'', ''ImageType'']
    = Inr ([(''ImageType'', PList [PInt 1, PInt 2])], [''EchoTime''])
   \<and> ''ImageType'' \<in> set [''EchoTime'', ''ImageType'']
   \<and> ''ImageType'' \<in> fst ` set [(''ImageType'', PList [PInt 1, PInt 2])]
   \<and> normalized_equal example_dumps structural_eq
         (get [(''EchoTime'', PInt 5), (''ImageType'', PList [PInt 1, PInt 2])] ''ImageType'')
         (get [(''EchoTime'', PInt 5), (''ImageType'', PList [PInt 1, PInt 2])] ''ImageType'')
   \<and> normalized_equal example_dumps structural_eq
         (get [(''EchoTime'', PInt 7), (''ImageType'', PList [PInt 1, PInt 2])] ''ImageType'')
         (get [(''EchoTime'', PInt 5), (''ImageType'', PList [PInt 1, PInt 2])] ''ImageType'')
   \<and> map_of [(''ImageType'', PList [PInt 1, PInt 2])] ''ImageType'' = Some (PList [PInt 1, PInt 2])"
proof -
  have run: "get_constant_fields example_dumps structural_eq
      ([(''EchoTime'', PInt 5), (''ImageType'', PList [PInt 1, PInt 2])]
       # [[(''EchoTime'', PInt 7), (''ImageType'', PList [PInt 1, PInt 2])]])
      [''EchoTime'', ''ImageType'']
    = Inr ([(''ImageType'', PList [PInt 1, PInt 2])], [''EchoTime''])"
    by code_simp
  have mem: "''ImageType'' \<in> set [''EchoTime'', ''ImageType'']" by simp
  from get_constant_fields_classifies[OF run mem] run show ?thesis
    by (simp add: get_def)
qed

text \<open>
  C5. For every row group and every field list, when \<open>get_constant_fields\<close> returns, the
  keys of the constant map and the variable list are disjoint and together are the fields
  given.
\<close>

theorem constant_variable_partition:
  assumes "get_constant_fields dumps eq rows field_names = Inr (constant_fields, variable_fields)"
  shows "fst ` set constant_fields \<inter> set variable_fields = {}
       \<and> fst ` set constant_fields \<union> set variable_fields = set field_names"
proof (cases rows)
  case Nil
  with assms show ?thesis by (simp add: get_constant_fields_def)
next
  case (Cons row0 rest)
  with assms have run: "get_constant_fields dumps eq (row0 # rest) field_names
                          = Inr (constant_fields, variable_fields)"
    by simp
  show ?thesis
    unfolding keys_constant_fields[OF run] get_constant_fields_result(1)[OF run] by auto
qed

theorem constant_variable_partition_witness:
  "get_constant_fields example_dumps structural_eq
      [[(''EchoTime'', PInt 5), (''ImageType'', PList [PInt 1, PInt 2])],
       [(''EchoTime'', PInt 7), (''ImageType'', PList [PInt 1, PInt 2])]]
      [''EchoTime'', ''ImageType'']
    = Inr ([(''ImageType'', PList [PInt 1, PInt 2])], [''EchoTime''])
   \<and> fst ` set [(''ImageType'', PList [PInt 1, PInt 2])] \<inter> set [''EchoTime''] = {}
   \<and> fst ` set [(''ImageType'', PList [PInt 1, PInt 2])] \<union> set [''EchoTime'']
       = set [''EchoTime'', ''ImageType'']"
proof -
  have run: "get_constant_fields example_dumps structural_eq
      [[(''EchoTime'', PInt 5), (''ImageType'', PList [PInt 1, PInt 2])],
       [(''EchoTime'', PInt 7), (''ImageType'', PList [PInt 1, PInt 2])]]
      [''EchoTime'', ''ImageType'']
    = Inr ([(''ImageType'', PList [PInt 1, PInt 2])], [''EchoTime''])"
    by code_simp
  from constant_variable_partition[OF run] run show ?thesis by simp
qed

text \<open>
  C8. Given no rows or no fields, \<open>get_constant_fields\<close> returns the empty constant map
  and the field list unchanged as the variable list, and raises nothing.
\<close>

theorem get_constant_fields_empty_input:
  "rows = [] \<or> field_names = [] \<Longrightarrow> get_constant_fields dumps eq rows field_names = Inr ([], field_names)"
  by (auto simp: get_constant_fields_def split: list.splits)

theorem get_constant_fields_empty_input_witness:
  "(([] :: pyval row list) = [] \<or> [''EchoTime''] = [])
   \<and> get_constant_fields example_dumps structural_eq [] [''EchoTime''] = Inr ([], [''EchoTime''])"
  using get_constant_fields_empty_input[of "[]" "[''EchoTime'']" example_dumps structural_eq]
  by simp

text \<open>
  C9. Normalization is idempotent: whatever \<open>make_hashable\<close> returns, \<open>make_hashable\<close>
  returns it unchanged.
\<close>

theorem make_hashable_idempotent:
  "make_hashable dumps v = Inr w \<Longrightarrow> make_hashable dumps w = Inr w"
proof (induction dumps v arbitrary: w rule: make_hashable.induct)
  case (3 dumps xs)
  then obtain ys where c: "collect (map (make_hashable dumps) xs) = Inr ys" and w: "w = PTuple ys"
    by (auto split: sum.splits)
  from collect_fixed[OF c] "3.IH" have "collect (map (make_hashable dumps) ys) = Inr ys"
    by blast
  with w show ?case by simp
next
  case (4 dumps xs)
  then obtain ys where c: "collect (map (make_hashable dumps) xs) = Inr ys" and w: "w = PTuple ys"
    by (auto split: sum.splits)
  from collect_fixed[OF c] "4.IH" have "collect (map (make_hashable dumps) ys) = Inr ys"
    by blast
  with w show ?case by simp
qed (auto split: sum.splits)

theorem make_hashable_idempotent_witness:
  "make_hashable example_dumps (PTuple [PInt 1, PList [PInt 1, PInt 2]])
     = Inr (PTuple [PInt 1, PStr ''[1, 2]''])
   \<and> make_hashable example_dumps (PTuple [PInt 1, PStr ''[1, 2]''])
     = Inr (PTuple [PInt 1, PStr ''[1, 2]''])"
proof -
  have run: "make_hashable example_dumps (PTuple [PInt 1, PList [PInt 1, PInt 2]])
     = Inr (PTuple [PInt 1, PStr ''[1, 2]''])"
    by code_simp
  from make_hashable_idempotent[OF run] run show ?thesis by simp
qed

section \<open>The row deduplicator\<close>


lemma update_new_key: "k \<notin> fst ` set d \<Longrightarrow> AList.update k v d = d @ [(k, v)]"
  by (induction d) auto

lemma dict_comp_distinct:
  "distinct (map fst kvs) \<Longrightarrow> dict_comp kvs = kvs"
proof -
  have "distinct (map fst (d @ kvs)) \<Longrightarrow>
        foldl (\<lambda>d kv. AList.update (fst kv) (snd kv) d) d kvs = d @ kvs" for d
  proof (induction kvs arbitrary: d)
    case Nil
    then show ?case by simp
  next
    case (Cons kv kvs)
    from Cons.prems have "fst kv \<notin> fst ` set d" by auto
    then have "AList.update (fst kv) (snd kv) d = d @ [kv]"
      using update_new_key[of "fst kv" d "snd kv"] by simp
    with Cons.IH[of "d @ [kv]"] Cons.prems show ?case by simp
  qed
  from this[of "[]"] show "distinct (map fst kvs) \<Longrightarrow> dict_comp kvs = kvs"
    by (simp add: dict_comp_def)
qed


















text \<open>
  C6. A non-empty field subset that shares no name with the table's columns makes
  \<open>fetch_unique_rows\<close> raise ValueError; an empty field subset gives the empty result
  and raises nothing.
\<close>

theorem fetch_unique_rows_field_subsets:
  "(selected_fields \<noteq> [] \<and> set selected_fields \<inter> set (columns df) = {} \<longrightarrow>
      fetch_unique_rows dumps eq infer drop_duplicates sort_values repeated df acquisition selected_fields
        = Inl ValueError)
   \<and> fetch_unique_rows dumps eq infer drop_duplicates sort_values repeated df acquisition [] = Inr []"
  by (cases selected_fields) (auto simp: fetch_unique_rows_def)


theorem fetch_unique_rows_field_subsets_witness:
  "[''SliceThickness''] \<noteq> [] \<and> set [''SliceThickness''] \<inter> set (columns example_df) = {}
   \<and> fetch_unique_rows example_dumps structural_eq example_infer example_drop_duplicates
         example_sort_values example_repeated example_df (PStr ''T1'') [''SliceThickness'']
       = Inl ValueError
   \<and> fetch_unique_rows example_dumps structural_eq example_infer example_drop_duplicates
         example_sort_values example_repeated example_df (PStr ''T1'') [] = Inr []"
  using fetch_unique_rows_field_subsets[of "[''SliceThickness'']" example_df example_dumps structural_eq
          example_infer example_drop_duplicates example_sort_values example_repeated "PStr ''T1''"]
  by (simp add: example_df_def)







section \<open>Missing numeric values\<close>

text \<open>
  C2, as stated, fails for the normalizer: \<open>make_hashable\<close> returns a NaN as it is, not
  a missing marker.
\<close>

theorem make_hashable_keeps_nan:
  "make_hashable example_dumps (PFloat NaN) = Inr (PFloat NaN) \<and> PFloat NaN \<noteq> PNone"
  by simp

text \<open>
  C2, amended. For every None, NaN or infinite numeric value, \<open>clean_for_json\<close> returns
  the one marker None (the function cannot raise: it is total), and \<open>make_hashable\<close>
  returns the value itself, unchanged, without raising.
\<close>

theorem missing_numeric_normalized:
  "missing_numeric v \<Longrightarrow> clean_for_json v = PNone \<and> make_hashable dumps v = Inr v"
  by (cases v) auto

theorem missing_numeric_normalized_witness:
  "missing_numeric (PNpFloat PosInf) \<and> clean_for_json (PNpFloat PosInf) = PNone
   \<and> make_hashable example_dumps (PNpFloat PosInf) = Inr (PNpFloat PosInf)"
  using missing_numeric_normalized[of "PNpFloat PosInf" example_dumps] by simp

section \<open>The serialized session map\<close>

lemma split_sep_no_sep: "\<not> contains_sep s \<Longrightarrow> split_sep s = [s]"
  by (induction s rule: split_sep.induct) auto

lemma split_sep_joined:
  "\<not> contains_sep a \<Longrightarrow> a = [] \<or> last a \<noteq> CHR '':'' \<Longrightarrow>
     split_sep (a @ ''::'' @ b) = a # split_sep b"
proof (induction a rule: split_sep.induct)
  case 1
  then show ?case by simp
next
  case (2 c)
  then show ?case by simp
next
  case (3 c d s)
  then show ?case by (auto split: if_splits)
qed

lemma split_sep_nonempty: "split_sep s \<noteq> []"
  by (induction s rule: split_sep.induct) (auto split: list.splits)

lemma split_sep_first:
  "split_sep (d # s) = p # ps \<Longrightarrow> (p = [] \<and> d = CHR '':'' \<and> ps \<noteq> []) \<or> (p \<noteq> [] \<and> hd p = d)"
  by (induction "d # s" arbitrary: d s p ps rule: split_sep.induct)
     (auto split: if_splits list.splits simp: split_sep_nonempty)

lemma split_sep_pieces: "p \<in> set (split_sep s) \<Longrightarrow> \<not> contains_sep p"
proof (induction s arbitrary: p rule: split_sep.induct)
  case 1
  then show ?case by simp
next
  case (2 c)
  then show ?case by simp
next
  case (3 c d s)
  show ?case
  proof (cases "c = CHR '':'' \<and> d = CHR '':''")
    case True
    with 3 show ?thesis by auto
  next
    case False
    obtain q qs where q: "split_sep (d # s) = q # qs"
      using split_sep_nonempty[of "d # s"] by (cases "split_sep (d # s)") auto
    from split_sep_first[OF q] have first: "q = [] \<or> (q \<noteq> [] \<and> hd q = d)" by auto
    have nq: "\<not> contains_sep q" using 3(2)[OF False] q by simp
    have "\<not> contains_sep (c # q)"
    proof (cases q)
      case Nil
      then show ?thesis by simp
    next
      case (Cons e q')
      with first have "e = d" by simp
      with Cons nq False show ?thesis by auto
    qed
    with 3(2)[OF False] 3(3) False q show ?thesis by auto
  qed
qed

lemma split_sep_inner_pieces:
  "p \<in> set (butlast (split_sep s)) \<Longrightarrow> p = [] \<or> last p \<noteq> CHR '':''"
proof (induction s arbitrary: p rule: split_sep.induct)
  case 1
  then show ?case by simp
next
  case (2 c)
  then show ?case by simp
next
  case (3 c d s)
  show ?case
  proof (cases "c = CHR '':'' \<and> d = CHR '':''")
    case True
    with 3(1)[OF True] 3(3) split_sep_nonempty[of s] show ?thesis by auto
  next
    case False
    obtain q qs where q: "split_sep (d # s) = q # qs"
      using split_sep_nonempty[of "d # s"] by (cases "split_sep (d # s)") auto
    show ?thesis
    proof (cases "qs = []")
      case True
      with 3(3) False q show ?thesis by simp
    next
      case qs: False
      with 3(3) False q have p: "p = c # q \<or> p \<in> set (butlast qs)" by auto
      have inner: "p' = [] \<or> last p' \<noteq> CHR '':''" if "p' \<in> set (butlast (q # qs))" for p'
        using 3(2)[OF False] that q by simp
      from p show ?thesis
      proof
        assume pc: "p = c # q"
        from inner[of q] qs have "q = [] \<or> last q \<noteq> CHR '':''" by simp
        moreover have "c \<noteq> CHR '':''" if "q = []"
          using split_sep_first[OF q] that False by auto
        ultimately show ?thesis using pc by auto
      next
        assume "p \<in> set (butlast qs)"
        then show ?thesis using inner[of p] qs by simp
      qed
    qed
  qed
qed

text \<open>
  For one key the condition is exact: cutting the joined string gives the two parts back
  if and only if the key is separable.
\<close>

lemma split_sep_exact:
  "split_sep (fst key @ ''::'' @ snd key) = key_tuple key \<longleftrightarrow> separable key"
proof
  assume "separable key"
  then show "split_sep (fst key @ ''::'' @ snd key) = key_tuple key"
    using split_sep_joined[of "fst key" "snd key"] split_sep_no_sep[of "snd key"]
    by (simp add: separable_def key_tuple_def)
next
  assume eq: "split_sep (fst key @ ''::'' @ snd key) = key_tuple key"
  then have pieces: "split_sep (fst key @ ''::'' @ snd key) = [fst key, snd key]"
    by (simp add: key_tuple_def)
  have "\<not> contains_sep (fst key)" "\<not> contains_sep (snd key)"
    using split_sep_pieces[of _ "fst key @ ''::'' @ snd key"] pieces by simp_all
  moreover have "fst key = [] \<or> last (fst key) \<noteq> CHR '':''"
    using split_sep_inner_pieces[of "fst key" "fst key @ ''::'' @ snd key"] pieces by simp
  ultimately show "separable key" by (simp add: separable_def)
qed

lemma split_sep_key:
  "separable key \<Longrightarrow> split_sep (fst key @ CHR '':'' # CHR '':'' # snd key) = key_tuple key"
  using split_sep_joined[of "fst key" "snd key"] split_sep_no_sep[of "snd key"]
  by (simp add: separable_def key_tuple_def)

lemma key_tuple_inj: "key_tuple k = key_tuple k' \<Longrightarrow> k = k'"
  by (simp add: key_tuple_def prod_eq_iff)

text \<open>
  C3, amended. For every session map (a dict: its keys are distinct) whose acquisition
  names contain no separator and do not end in a colon and whose series labels contain no
  separator, joining the two parts of each key and value with \<open>::\<close> and splitting
  them again at \<open>::\<close> gives back exactly the original key pairs.
\<close>

theorem session_map_round_trip:
  assumes "distinct (map fst entries)"
      and "\<forall>kv\<in>set entries. separable (fst kv) \<and> separable (snd kv)"
  shows "series_map (session_map_serializable entries)
           = map (\<lambda>kv. (key_tuple (fst kv), key_tuple (snd kv))) entries"
proof -
  let ?ser = "\<lambda>kv. (fst (fst kv) @ ''::'' @ snd (fst kv), fst (snd kv) @ ''::'' @ snd (snd kv))"
  let ?par = "\<lambda>kv. (split_sep (fst kv), split_sep (snd kv))"
  let ?tup = "\<lambda>kv. (key_tuple (fst kv), key_tuple (snd kv))"
  have parsed: "?par (?ser kv) = ?tup kv" if "kv \<in> set entries" for kv
    using that assms(2) by (simp add: split_sep_key)
  have inj_tup: "inj_on (\<lambda>k. key_tuple k) (set (map fst entries))"
    by (rule inj_onI) (rule key_tuple_inj)
  have "distinct (map key_tuple (map fst entries))"
    using assms(1) inj_tup by (simp only: distinct_map)
  then have d_tup: "distinct (map fst (map ?tup entries))"
    by (simp add: comp_def)
  have keys_ser: "map split_sep (map fst (map ?ser entries)) = map fst (map ?tup entries)"
    using parsed by (simp cong: map_cong)
  have d_ser: "distinct (map fst (map ?ser entries))"
  proof -
    have "distinct (map split_sep (map fst (map ?ser entries)))"
      unfolding keys_ser by (rule d_tup)
    then show ?thesis by (simp only: distinct_map)
  qed
  have ser: "session_map_serializable entries = map ?ser entries"
    unfolding session_map_serializable_def using d_ser by (rule dict_comp_distinct)
  have par: "map ?par (map ?ser entries) = map ?tup entries"
    using parsed by (simp cong: map_cong)
  have "series_map (session_map_serializable entries) = dict_comp (map ?par (map ?ser entries))"
    by (simp only: series_map_def ser)
  also have "\<dots> = dict_comp (map ?tup entries)"
    by (simp only: par)
  also have "\<dots> = map ?tup entries"
    using d_tup by (rule dict_comp_distinct)
  finally show ?thesis .
qed

theorem session_map_round_trip_witness:
  "distinct (map fst [((''T1'', ''Series 1''), (''ref:T1'', ''Series 2'')), ((''T1'', ''Series 2''), (''ref:T1'', ''Series 1''))])
   \<and> separable (''T1'', ''Series 1'') \<and> separable (''ref:T1'', ''Series 2'')
   \<and> separable (''T1'', ''Series 2'') \<and> separable (''ref:T1'', ''Series 1'')
   \<and> series_map (session_map_serializable
        [((''T1'', ''Series 1''), (''ref:T1'', ''Series 2'')), ((''T1'', ''Series 2''), (''ref:T1'', ''Series 1''))])
      = [([''T1'', ''Series 1''], [''ref:T1'', ''Series 2'']), ([''T1'', ''Series 2''], [''ref:T1'', ''Series 1''])]"
  using session_map_round_trip[of "[((''T1'', ''Series 1''), (''ref:T1'', ''Series 2'')), ((''T1'', ''Series 2''), (''ref:T1'', ''Series 1''))]"]
  by (simp add: separable_def key_tuple_def)

text \<open>
  C3, as stated, fails: an acquisition name that contains the separator comes back as a
  key of three parts.
\<close>

theorem session_map_round_trip_counterexample:
  "series_map (session_map_serializable [((''a::b'', ''Series 1''), (''ref'', ''Series 1''))])
     = [([''a'', ''b'', ''Series 1''], [''ref'', ''Series 1''])]
   \<and> [''a'', ''b'', ''Series 1''] \<noteq> key_tuple (''a::b'', ''Series 1'')"
  by (simp add: series_map_def session_map_serializable_def dict_comp_def key_tuple_def)

section \<open>The module-reference mode\<close>








section \<open>The series labels\<close>

lemma index_of_sorted:
  assumes "sorted (map f xs)" "distinct (map f xs)" "x \<in> set xs"
  shows "index_of x xs = card {y \<in> set xs. f y < f x}"
  using assms
proof (induction xs)
  case Nil
  then show ?case by simp
next
  case (Cons y ys)
  show ?case
  proof (cases "x = y")
    case True
    have "{z \<in> set (y # ys). f z < f y} = {}"
      using Cons.prems(1) by (auto simp: not_less)
    with True show ?thesis by simp
  next
    case False
    with Cons.prems have x: "x \<in> set ys" by simp
    from Cons.prems(1,2) x have lt: "f y < f x"
      by (auto simp: less_le)
    have y: "y \<notin> set ys" using Cons.prems(2) by auto
    have "{z \<in> set (y # ys). f z < f x} = insert y {z \<in> set ys. f z < f x}"
      using lt by auto
    moreover have "y \<notin> {z \<in> set ys. f z < f x}" using y by simp
    ultimately have "card {z \<in> set (y # ys). f z < f x} = Suc (card {z \<in> set ys. f z < f x})"
      by simp
    moreover have "index_of x ys = card {z \<in> set ys. f z < f x}"
      using Cons.IH Cons.prems(1,2) x by simp
    ultimately show ?thesis using False by simp
  qed
qed

lemma inj_na_last: "inj (map na_last)"
  by (auto simp: na_last_def inj_on_def list_eq_iff_nth_eq)

lemma ngroup_code:
  assumes "k \<in> set keys"
  shows "index_of k (sort_key (map na_last) (remdups keys))
           = card {k' \<in> set keys. sorts_before k' k}"
proof -
  let ?gs = "sort_key (map na_last) (remdups keys)"
  have s: "sorted (map (map na_last) ?gs)" by simp
  have "distinct ?gs" by simp
  then have d: "distinct (map (map na_last) ?gs)"
    using inj_na_last by (simp add: distinct_map inj_on_def) blast
  have m: "k \<in> set ?gs" using assms by simp
  from index_of_sorted[OF s d m] show ?thesis
    by (simp add: sorts_before_def)
qed


lemma map_of_relabel:
  "map_of (map (\<lambda>ix. (fst ix, F (snd ix))) xs) i = map_option F (map_of xs i)"
  by (induction xs) auto

lemma map_of_concat_Some:
  assumes "map_of (f g) i = Some v" "g \<in> set gs"
      and "\<forall>g'\<in>set gs. g' \<noteq> g \<longrightarrow> i \<notin> fst ` set (f g')"
  shows "map_of (concat (map f gs)) i = Some v"
  using assms(2,3)
proof (induction gs)
  case Nil
  then show ?case by simp
next
  case (Cons h t)
  show ?case
  proof (cases "h = g")
    case True
    with assms(1) show ?thesis by (simp add: map_add_Some_iff)
  next
    case False
    with Cons.prems have "i \<notin> fst ` set (f h)" and "g \<in> set t" by auto
    then have "map_of (f h) i = None" and "map_of (concat (map f t)) i = Some v"
      using Cons.IH Cons.prems(2) by (auto simp: map_of_eq_None_iff)
    then show ?thesis by (simp add: map_add_Some_iff)
  qed
qed

lemma group_series_map:
  "group_series reference_fields indexed g =
     map (\<lambda>ir. (fst ir,
                 Suc (index_of (combination reference_fields (snd ir))
                        (sort_key (map na_last)
                           (remdups (map (\<lambda>ir. combination reference_fields (snd ir))
                              (filter (\<lambda>ir. map_of (snd ir) ''ProtocolName'' = Some g) indexed)))))))
         (filter (\<lambda>ir. map_of (snd ir) ''ProtocolName'' = Some g) indexed)"
  by (simp add: group_series_def ngroup_def Let_def combination_def zip_map_map zip_same_conv_map comp_def)

lemma indexed_member: "(i, r) \<in> set (zip [0..<length rows] rows) \<longleftrightarrow> i < length rows \<and> r = rows ! i"
proof
  assume "(i, r) \<in> set (zip [0..<length rows] rows)"
  then obtain n where "[0..<length rows] ! n = i" "rows ! n = r" "n < length rows"
    by (auto simp: in_set_zip)
  then show "i < length rows \<and> r = rows ! i" by simp
next
  assume "i < length rows \<and> r = rows ! i"
  then have "[0..<length rows] ! i = i \<and> rows ! i = r \<and> i < length [0..<length rows] \<and> i < length rows"
    by simp
  then show "(i, r) \<in> set (zip [0..<length rows] rows)"
    unfolding in_set_zip fst_conv snd_conv by (rule exI)
qed

lemma set_map_filter: "set (List.map_filter f xs) = {y. \<exists>x\<in>set xs. f x = Some y}"
  by (induction xs) (auto split: option.splits)

lemma distinct_indexed_filter: "distinct (map fst (filter P (zip [0..<length rows] rows)))"
  by (rule distinct_map_filter) simp

lemma group_combinations:
  "set (map (\<lambda>ir. combination reference_fields (snd ir))
          (filter (\<lambda>ir. map_of (snd ir) ''ProtocolName'' = Some g)
             (zip [0..<length (records in_session)] (records in_session))))
     = set (map (combination reference_fields) (acquisition_rows in_session g))"
proof -
  have "snd ` set (zip [0..<length (records in_session)] (records in_session)) = set (records in_session)"
    by (metis diff_zero length_upt map_snd_zip set_map)
  then show ?thesis
    by (force simp: acquisition_rows_def image_iff)
qed

lemma group_series_lookup:
  assumes "i < length (records in_session)"
      and "map_of (records in_session ! i) ''ProtocolName'' = Some g"
  shows "map_of (group_series reference_fields
                   (zip [0..<length (records in_session)] (records in_session)) g) i
           = Some (Suc (card {k \<in> set (map (combination reference_fields) (acquisition_rows in_session g)).
                               sorts_before k (combination reference_fields (records in_session ! i))}))"
proof -
  let ?rows = "records in_session"
  let ?group = "filter (\<lambda>ir. map_of (snd ir) ''ProtocolName'' = Some g) (zip [0..<length ?rows] ?rows)"
  let ?keys = "map (\<lambda>ir. combination reference_fields (snd ir)) ?group"
  let ?h = "\<lambda>ir. (fst ir, Suc (index_of (combination reference_fields (snd ir))
                                 (sort_key (map na_last) (remdups ?keys))))"
  have mem: "(i, ?rows ! i) \<in> set ?group"
    using assms by (simp add: indexed_member)
  then have key: "combination reference_fields (?rows ! i) \<in> set ?keys"
    by force
  have "distinct (map fst (map ?h ?group))"
    using distinct_indexed_filter[of _ ?rows] by (simp add: comp_def)
  moreover have "?h (i, ?rows ! i) \<in> set (map ?h ?group)"
    using mem by (simp only: set_map) (rule imageI)
  ultimately have "map_of (map ?h ?group) i
      = Some (Suc (index_of (combination reference_fields (?rows ! i))
                     (sort_key (map na_last) (remdups ?keys))))"
    by (simp only: map_of_eq_Some_iff fst_conv snd_conv)
  then show ?thesis
    by (simp only: group_series_map ngroup_code[OF key] group_combinations)
qed

lemma group_series_other:
  assumes "i < length (records in_session)"
      and "map_of (records in_session ! i) ''ProtocolName'' = Some g" "g' \<noteq> g"
  shows "i \<notin> fst ` set (group_series reference_fields
                          (zip [0..<length (records in_session)] (records in_session)) g')"
  using assms by (auto simp: group_series_map indexed_member)

lemma two_members: "x \<in> set xs \<Longrightarrow> y \<in> set xs \<Longrightarrow> x \<noteq> y \<Longrightarrow> 2 \<le> length xs"
  by (cases xs; cases "tl xs") auto

text \<open>
  C1, amended. In a session of two acquisitions or more, within each acquisition the
  series ordinals start at 1 and follow the sorted order of the distinct combinations of
  reference-field values: the row at index \<open>i\<close> of acquisition \<open>g\<close> gets the label
  \<open>Series n\<close> where \<open>n\<close> is one more than the number of distinct combinations of \<open>g\<close>
  that sort before the row's own.
\<close>

theorem series_by_sorted_combination:
  assumes "series_column stacked reference_fields in_session = Inr labels"
      and "i < length (records in_session)"
      and "map_of (records in_session ! i) ''ProtocolName'' = Some g"
      and "r' \<in> set (records in_session)" "map_of r' ''ProtocolName'' = Some g'" "g' \<noteq> g"
  shows "labels ! i =
           Some (''Series '' @
                 str_nat (Suc (card {k \<in> set (map (combination reference_fields) (acquisition_rows in_session g)).
                                      sorts_before k (combination reference_fields (records in_session ! i))})))"
proof -
  let ?rows = "records in_session"
  let ?indexed = "zip [0..<length ?rows] ?rows"
  let ?acqs = "sort (remdups (List.map_filter (\<lambda>r. map_of r ''ProtocolName'') ?rows))"
  let ?series = "concat (map (group_series reference_fields ?indexed) ?acqs)"
  let ?n = "Suc (card {k \<in> set (map (combination reference_fields) (acquisition_rows in_session g)).
                         sorts_before k (combination reference_fields (?rows ! i))})"
  have "?rows ! i \<in> set ?rows" using assms(2) by simp
  with assms(3) have g: "g \<in> set ?acqs"
    by (auto simp: set_map_filter)
  from assms(4,5) have g': "g' \<in> set ?acqs"
    by (auto simp: set_map_filter)
  from g' g assms(6) have "2 \<le> length ?acqs"
    by (rule two_members)
  with assms(1) have labels:
    "labels = map (\<lambda>i. map_of (map (\<lambda>ix. (fst ix, ''Series '' @ str_nat (snd ix))) ?series) i)
                  [0..<length ?rows]"
    by (auto simp: series_column_def Let_def split: if_splits)
  have ser: "map_of ?series i = Some ?n"
    using group_series_lookup[OF assms(2,3)] g
  proof (rule map_of_concat_Some)
    show "\<forall>g'\<in>set ?acqs. g' \<noteq> g \<longrightarrow> i \<notin> fst ` set (group_series reference_fields ?indexed g')"
      using group_series_other[OF assms(2,3)] by blast
  qed
  have "map_of (map (\<lambda>ix. (fst ix, ''Series '' @ str_nat (snd ix))) ?series) i
               = map_option (\<lambda>n. ''Series '' @ str_nat n) (map_of ?series i)"
    by (rule map_of_relabel)
  also have "\<dots> = Some (''Series '' @ str_nat ?n)"
    unfolding ser by (rule option.map(2))
  finally have lab: "map_of (map (\<lambda>ix. (fst ix, ''Series '' @ str_nat (snd ix))) ?series) i
               = Some (''Series '' @ str_nat ?n)" .
  have "labels ! i = map_of (map (\<lambda>ix. (fst ix, ''Series '' @ str_nat (snd ix))) ?series) ([0..<length ?rows] ! i)"
    unfolding labels using assms(2) by (intro nth_map) simp
  also have "[0..<length ?rows] ! i = i"
    using assms(2) by simp
  finally show ?thesis
    unfolding lab .
qed

text \<open>The rows with echo times 1, 2, 1 get Series 1, Series 2, Series 1.\<close>

theorem series_by_sorted_combination_witness:
  "series_column example_stacked [''EchoTime''] example_session_121
     = Inr [Some ''Series 1'', Some ''Series 2'', Some ''Series 1'', Some ''Series 1'']
   \<and> 1 < length (records example_session_121)
   \<and> map_of (records example_session_121 ! 1) ''ProtocolName'' = Some (SStr ''T1'')
   \<and> [(''ProtocolName'', SStr ''T2''), (''Acquisition'', SStr ''acq-T2''), (''EchoTime'', SInt 9)]
        \<in> set (records example_session_121)
   \<and> map_of [(''ProtocolName'', SStr ''T2''), (''Acquisition'', SStr ''acq-T2''), (''EchoTime'', SInt 9)]
        ''ProtocolName'' = Some (SStr ''T2'')
   \<and> SStr ''T2'' \<noteq> SStr ''T1''
   \<and> [Some ''Series 1'', Some ''Series 2'', Some ''Series 1'', Some ''Series 1''] ! 1 =
        Some (''Series '' @
              str_nat (Suc (card {k \<in> set (map (combination [''EchoTime''])
                                               (acquisition_rows example_session_121 (SStr ''T1''))).
                                   sorts_before k
                                     (combination [''EchoTime''] (records example_session_121 ! 1))})))"
proof -
  have run: "series_column example_stacked [''EchoTime''] example_session_121
     = Inr [Some ''Series 1'', Some ''Series 2'', Some ''Series 1'', Some ''Series 1'']"
    by code_simp
  have row: "1 < length (records example_session_121)"
    by (simp add: example_session_121_def)
  have acq: "map_of (records example_session_121 ! 1) ''ProtocolName'' = Some (SStr ''T1'')"
    by (simp add: example_session_121_def)
  have other: "[(''ProtocolName'', SStr ''T2''), (''Acquisition'', SStr ''acq-T2''), (''EchoTime'', SInt 9)]
        \<in> set (records example_session_121)"
    by (simp add: example_session_121_def)
  have other_acq: "map_of [(''ProtocolName'', SStr ''T2''), (''Acquisition'', SStr ''acq-T2''), (''EchoTime'', SInt 9)]
        ''ProtocolName'' = Some (SStr ''T2'')"
    by simp
  have differ: "SStr ''T2'' \<noteq> SStr ''T1''"
    by simp
  from series_by_sorted_combination[OF run row acq other other_acq differ]
       run row acq other other_acq differ
  show ?thesis by blast
qed

text \<open>
  C1, as stated, fails: with echo times 2, 1, 2 in row order the first combination to
  appear gets Series 2, where the order of first appearance would give Series 1.
\<close>

theorem series_first_appearance_counterexample:
  "series_column example_stacked [''EchoTime''] example_session
     = Inr [Some ''Series 2'', Some ''Series 1'', Some ''Series 2'', Some ''Series 1'']
   \<and> first_appearance_series [''EchoTime''] example_session
     = [Some ''Series 1'', Some ''Series 2'', Some ''Series 1'', Some ''Series 1'']"
  by code_simp

end
